theory Spec2Isabelle
  imports Main "HOL-Library.Char_ord" "HOL-Library.List_Lexorder" "HOL-Library.Multiset"
begin

section \<open>Strings\<close>

text \<open>
  Python strings are modelled as \<open>string\<close>: a list of characters, each a code point
  below 256. Comparison of strings (\<open>sorted\<close>, \<open>sort_values\<close>) is lexicographic on the
  code points, which is the order \<open>HOL-Library.List_Lexorder\<close> puts on \<open>char list\<close>.
\<close>

text \<open>\<open>str.isspace\<close> on the code points below 256: the characters \<open>str.strip()\<close> removes.\<close>

definition is_space :: "char \<Rightarrow> bool" where
  "is_space c = (of_char c \<in> {9, 10, 11, 12, 13, 28, 29, 30, 31, 32, 133, 160 :: nat})"

text \<open>\<open>s.strip()\<close>: leading and trailing whitespace removed.\<close>

definition strip :: "string \<Rightarrow> string" where
  "strip s = rev (dropWhile is_space (rev (dropWhile is_space s)))"

text \<open>\<open>sep.join(xs)\<close>.\<close>

fun join :: "string \<Rightarrow> string list \<Rightarrow> string" where
  "join sep [] = []"
| "join sep [x] = x"
| "join sep (x # y # ys) = x @ sep @ join sep (y # ys)"

section \<open>Ordered dictionaries\<close>

text \<open>
  A Python \<open>dict\<close> keeps its keys in insertion order; assigning to a key that is present
  replaces the value where the key stands. It is an association list with distinct keys;
  \<open>map_of\<close> is the lookup.
\<close>

fun dict_set :: "'k \<Rightarrow> 'v \<Rightarrow> ('k \<times> 'v) list \<Rightarrow> ('k \<times> 'v) list" where
  "dict_set k v [] = [(k, v)]"
| "dict_set k v ((k', v') # d) =
     (if k = k' then (k, v) # d else (k', v') # dict_set k v d)"

section \<open>The inverted index builder (build_inverted_index.py)\<close>

datatype error = ValueError string | OSError

text \<open>\<open>MISSING_TOKENS\<close>, lines 19 to 28.\<close>

definition MISSING_TOKENS :: "string set" where
  "MISSING_TOKENS =
     {'''', ''Not found'', ''None'', ''none'', ''NULL'', ''null'', ''nan'', ''NaN''}"

text \<open>
  The CSV file is the list of rows \<open>csv.reader\<close> yields for it, each a list of cells.
  \<open>csv.DictReader\<close> takes the first row as \<open>fieldnames\<close> (\<open>None\<close> for a file with no
  row), skips every later row that is \<open>[]\<close>, and turns a row into the dictionary
  \<open>dict(zip(fieldnames, row))\<close>, in which a later column of the same name wins; the
  field names a short row does not reach are then set to \<open>None\<close>. A value \<open>None\<close> and a
  key that is absent read the same through \<open>row.get\<close>, so the row is a partial map.
\<close>

type_synonym csv_rows = "string list list"

definition fieldnames :: "csv_rows \<Rightarrow> string list option" where
  "fieldnames csv = (case csv of [] \<Rightarrow> None | h # _ \<Rightarrow> Some h)"

definition dict_row :: "string list \<Rightarrow> string list \<Rightarrow> (string \<rightharpoonup> string)" where
  "dict_row fns cells =
     (\<lambda>k. if k \<in> set (drop (length cells) fns) then None
          else map_of (rev (zip fns cells)) k)"

definition dict_rows :: "csv_rows \<Rightarrow> (string \<rightharpoonup> string) list" where
  "dict_rows csv =
     (case csv of [] \<Rightarrow> []
      | h # rs \<Rightarrow> map (dict_row h) (filter (\<lambda>r. r \<noteq> []) rs))"

text \<open>
  \<open>indexes\<close>: tag to (value to set of identifiers). The inner \<open>defaultdict(set)\<close> makes
  the empty set for a value it has not seen.
\<close>

type_synonym value_map = "(string \<times> string set) list"
type_synonym indexes = "(string \<times> value_map) list"

text \<open>\<open>{tag: defaultdict(set) for tag in tags}\<close>, lines 73 to 75.\<close>

definition init_indexes :: "string list \<Rightarrow> indexes" where
  "init_indexes tags = fold (\<lambda>tag d. dict_set tag [] d) tags []"

text \<open>\<open>value_map[value].add(study_uid)\<close> on a \<open>defaultdict(set)\<close>.\<close>

definition value_map_add :: "string \<Rightarrow> string \<Rightarrow> value_map \<Rightarrow> value_map" where
  "value_map_add v uid vm =
     dict_set v (insert uid (case map_of vm v of None \<Rightarrow> {} | Some s \<Rightarrow> s)) vm"

text \<open>
  \<open>indexes[tag][value].add(study_uid)\<close>, line 105. \<open>indexes[tag]\<close> is there for every
  tag of the loop (lemma \<open>fst_set_init_indexes\<close> below), so the \<open>KeyError\<close> of a missing
  tag is never raised; the model leaves the dictionary as it is there.
\<close>

definition index_add :: "string \<Rightarrow> string \<Rightarrow> string \<Rightarrow> indexes \<Rightarrow> indexes" where
  "index_add tag v uid idx =
     (case map_of idx tag of
        None \<Rightarrow> idx
      | Some vm \<Rightarrow> dict_set tag (value_map_add v uid vm) idx)"

text \<open>The key-column value of a row, \<open>(row.get(study_uid_column) or "").strip()\<close>, line 94.\<close>

definition row_study_uid :: "string \<Rightarrow> (string \<rightharpoonup> string) \<Rightarrow> string" where
  "row_study_uid study_uid_column row =
     strip (case row study_uid_column of None \<Rightarrow> '''' | Some s \<Rightarrow> s)"

text \<open>The body of \<open>for tag in tags\<close>, lines 98 to 105.\<close>

definition process_cell ::
  "string set \<Rightarrow> (string \<rightharpoonup> string) \<Rightarrow> string \<Rightarrow> string \<Rightarrow> indexes \<Rightarrow> indexes" where
  "process_cell missing_tokens row study_uid tag idx =
     (case row tag of
        None \<Rightarrow> idx
      | Some raw_value \<Rightarrow>
          (let v = strip raw_value
           in if v \<in> missing_tokens then idx else index_add tag v study_uid idx))"

text \<open>The body of \<open>for row in reader\<close>, lines 93 to 105.\<close>

definition process_row ::
  "string list \<Rightarrow> string \<Rightarrow> string set \<Rightarrow> (string \<rightharpoonup> string) \<Rightarrow> indexes \<Rightarrow> indexes" where
  "process_row tags study_uid_column missing_tokens row idx =
     (let study_uid = row_study_uid study_uid_column row
      in if study_uid \<in> missing_tokens then idx
         else fold (process_cell missing_tokens row study_uid) tags idx)"

text \<open>\<open>build_indexes\<close>, lines 67 to 107.\<close>

definition build_indexes ::
  "csv_rows \<Rightarrow> string list \<Rightarrow> string \<Rightarrow> string set \<Rightarrow> error + indexes" where
  "build_indexes csv tags study_uid_column missing_tokens =
     (let idx = init_indexes tags
      in case fieldnames csv of
           None \<Rightarrow> Inl (ValueError ''CSV file has no header row.'')
         | Some fns \<Rightarrow>
             if fns = [] then Inl (ValueError ''CSV file has no header row.'')
             else
               (let missing_tags = filter (\<lambda>tag. tag \<notin> set fns) tags
                in if missing_tags \<noteq> []
                   then Inl (ValueError
                          (''CSV is missing tag columns: '' @ join '', '' (sort missing_tags)))
                   else if study_uid_column \<notin> set fns
                   then Inl (ValueError
                          (''CSV is missing required column: '' @ study_uid_column))
                   else Inr (fold (process_row tags study_uid_column missing_tokens)
                               (dict_rows csv) idx)))"


section \<open>The index writer\<close>

text \<open>
  \<open>re.sub(r"[^A-Za-z0-9._-]+", "_", tag)\<close>: every maximal run of characters outside the
  class becomes one underscore. The flag says that the previous character was in such a
  run, whose underscore is already written.
\<close>

definition is_safe :: "char \<Rightarrow> bool" where
  "is_safe c =
     (c \<in> set ''ABCDEFGHIJKLMNOPQRSTUVWXYZabcdefghijklmnopqrstuvwxyz0123456789._-'')"

fun re_sub_unsafe :: "bool \<Rightarrow> string \<Rightarrow> string" where
  "re_sub_unsafe in_run [] = []"
| "re_sub_unsafe in_run (c # cs) =
     (if is_safe c then c # re_sub_unsafe False cs
      else if in_run then re_sub_unsafe True cs
      else CHR ''_'' # re_sub_unsafe True cs)"

text \<open>\<open>s.strip("._")\<close>.\<close>

definition strip_chars :: "char set \<Rightarrow> string \<Rightarrow> string" where
  "strip_chars cs s = rev (dropWhile (\<lambda>c. c \<in> cs) (rev (dropWhile (\<lambda>c. c \<in> cs) s)))"

text \<open>\<open>sanitize_filename\<close>, lines 62 to 64.\<close>

definition sanitize_filename :: "string \<Rightarrow> string" where
  "sanitize_filename tag =
     (let safe = strip_chars {CHR ''.'', CHR ''_''} (re_sub_unsafe False tag)
      in if safe = [] then ''tag'' else safe)"

text \<open>
  Both kinds of file hold a JSON object whose members are strings mapped to arrays of
  strings. A document is the sequence of its members in the order \<open>json.dump\<close> writes
  them; the bytes of the file are a function of that sequence. With \<open>sort_keys=True\<close> the
  members of the dictionary are written in the order of their keys.
\<close>

type_synonym json_doc = "(string \<times> string list) list"

definition json_dump_sorted :: "(string \<times> string list) list \<Rightarrow> json_doc" where
  "json_dump_sorted d = sort_key fst d"

text \<open>The files of the output directory, by name.\<close>

type_synonym out_dir = "string \<rightharpoonup> json_doc"

text \<open>
  The body of \<open>for tag, value_map in indexes.items()\<close>, lines 117 to 126, on the pair of
  the directory and \<open>index_manifest\<close>. \<open>sorted(uids)\<close> of a set is the sorted list of its
  elements.
\<close>

definition write_one ::
  "string \<times> value_map \<Rightarrow> out_dir \<times> (string \<times> string list) list
     \<Rightarrow> out_dir \<times> (string \<times> string list) list" where
  "write_one entry st =
     (case entry of (tag, vm) \<Rightarrow>
        (let filename = sanitize_filename tag @ ''.json'';
             serializable = map (\<lambda>(v, uids). (v, sorted_list_of_set uids)) vm
         in ((fst st)(filename \<mapsto> json_dump_sorted serializable),
             dict_set filename (sort (map fst vm)) (snd st))))"

text \<open>The manifest \<open>index_manifest\<close> after the loop.\<close>

definition index_manifest :: "indexes \<Rightarrow> (string \<times> string list) list" where
  "index_manifest idx = snd (fold write_one idx (Map.empty, []))"

text \<open>\<open>write_indexes\<close>, lines 110 to 131: the output directory after the call.\<close>

definition write_indexes :: "indexes \<Rightarrow> out_dir \<Rightarrow> out_dir" where
  "write_indexes idx dir =
     (let st = fold write_one idx (dir, [])
      in (fst st)(''index.json'' \<mapsto> json_dump_sorted (snd st)))"

section \<open>Reading the tags file\<close>

text \<open>
  \<open>str.splitlines()\<close> on the code points below 256: a line ends at \<open>\n\<close>, \<open>\r\<close>,
  \<open>\r\n\<close>, \<open>\v\<close>, \<open>\f\<close>, \<open>\x1c\<close>, \<open>\x1d\<close>, \<open>\x1e\<close> or \<open>\x85\<close>, and a text that ends with
  a line end has no empty last line. The flag says that the previous character was
  \<open>\r\<close>, so that a \<open>\n\<close> right after it belongs to the same line end; \<open>cur\<close> is the line
  read so far, reversed.
\<close>

definition is_linebreak :: "char \<Rightarrow> bool" where
  "is_linebreak c = (of_char c \<in> {10, 11, 12, 13, 28, 29, 30, 133 :: nat})"

fun splitlines_from :: "bool \<Rightarrow> string \<Rightarrow> string \<Rightarrow> string list" where
  "splitlines_from after_cr cur [] = (if cur = [] then [] else [rev cur])"
| "splitlines_from after_cr cur (c # cs) =
     (if after_cr \<and> c = char_of (10 :: nat) then splitlines_from False cur cs
      else if is_linebreak c
      then rev cur # splitlines_from (c = char_of (13 :: nat)) [] cs
      else splitlines_from False (c # cur) cs)"

definition splitlines :: "string \<Rightarrow> string list" where
  "splitlines s = splitlines_from False [] s"

text \<open>\<open>trimmed.startswith("#")\<close>.\<close>

definition starts_with_hash :: "string \<Rightarrow> bool" where
  "starts_with_hash s = (case s of [] \<Rightarrow> False | c # _ \<Rightarrow> c = CHR ''#'')"

text \<open>
  The loop both \<open>load_tags\<close> functions share (build_inverted_index.py lines 53 to 59,
  main.py lines 91 to 96), on the text that \<open>read_text\<close> returned.
\<close>

definition tag_lines :: "string \<Rightarrow> string list" where
  "tag_lines text_read =
     filter (\<lambda>trimmed. \<not> (trimmed = [] \<or> starts_with_hash trimmed))
       (map strip (splitlines text_read))"

text \<open>
  What a path holds: nothing (\<open>Path.exists()\<close> is false), something that is read with
  success, or something that exists and whose reading raises (a directory, a file
  without read permission, bytes that are not UTF-8).
\<close>

datatype 'a path_state = NoSuchPath | Readable 'a | Raises error

section \<open>The command line of the index builder\<close>

record index_args =
  csv :: string
  tags_file :: string
  study_uid_column :: string
  missing_token :: "string list"

text \<open>\<open>str(exc)\<close>.\<close>

fun error_message :: "error \<Rightarrow> string" where
  "error_message (ValueError m) = m"
| "error_message OSError = ''OSError''"

text \<open>
  \<open>main\<close>, lines 134 to 167, given what the two paths hold and the output directory.
  The result is the exit status, the lines written to the standard error stream and
  the output directory; \<open>Inl\<close> is an exception that leaves \<open>main\<close> (the interpreter then
  ends with a traceback and a non-zero status).
\<close>

definition main_index ::
  "csv_rows path_state \<Rightarrow> string path_state \<Rightarrow> index_args \<Rightarrow> out_dir
     \<Rightarrow> error + (int \<times> string list \<times> out_dir)" where
  "main_index csv_file tags_text args dir =
     (if csv_file = NoSuchPath
      then Inr (1, [''ERROR: CSV not found: '' @ csv args], dir)
      else if tags_text = NoSuchPath
      then Inr (1, [''ERROR: Tags file not found: '' @ tags_file args], dir)
      else
        (case tags_text of
           Raises e \<Rightarrow> Inl e
         | NoSuchPath \<Rightarrow> Inl OSError
         | Readable text_read \<Rightarrow>
             (let tags = tag_lines text_read
              in if tags = [] then Inr (1, [''ERROR: Tags file is empty.''], dir)
                 else
                   (let missing_tokens = MISSING_TOKENS \<union> set (map strip (missing_token args));
                        built =
                          (case csv_file of
                             Readable rows \<Rightarrow>
                               build_indexes rows tags (study_uid_column args) missing_tokens
                           | Raises e \<Rightarrow> Inl e
                           | NoSuchPath \<Rightarrow> Inl OSError)
                    in case built of
                         Inl exc \<Rightarrow> Inr (1, [''ERROR: '' @ error_message exc], dir)
                       | Inr idx \<Rightarrow> Inr (0, [], write_indexes idx dir)))))"


section \<open>The extraction engine (dcmtag2table.py)\<close>

text \<open>
  The metadata of a file that \<open>pydicom.dcmread\<close> has read: the value of each tag it
  holds. The reader itself is a parameter of the model, \<open>None\<close> where it raises.
\<close>

type_synonym dataset = "string \<rightharpoonup> string"

text \<open>\<open>ds.data_element(tag).value if tag in ds else "Not found"\<close>, line 17.\<close>

definition tag_value :: "dataset \<Rightarrow> string \<Rightarrow> string" where
  "tag_value ds tag = (case ds tag of Some v \<Rightarrow> v | None \<Rightarrow> ''Not found'')"

text \<open>\<open>_read_dicom_tags\<close>, lines 8 to 21: the row, or \<open>None\<close> on failure.\<close>

definition read_dicom_tags ::
  "(string \<Rightarrow> dataset option) \<Rightarrow> string \<Rightarrow> string list \<Rightarrow> string list option" where
  "read_dicom_tags dcmread filepath list_of_tags =
     (case dcmread filepath of
        None \<Rightarrow> None
      | Some ds \<Rightarrow> Some (filepath # map (tag_value ds) list_of_tags))"

text \<open>A \<open>pandas.DataFrame\<close>: the column labels and the rows, each a list of cells.\<close>

record dataframe =
  columns :: "string list"
  rows :: "string list list"

text \<open>The cell of a row in the first column, which the engine labels \<open>Filename\<close>.\<close>

definition filename_cell :: "string list \<Rightarrow> string" where
  "filename_cell r = (case r of [] \<Rightarrow> [] | f # _ \<Rightarrow> f)"

text \<open>
  \<open>df.sort_values(by=["Filename"], ascending=True)\<close>, line 58, on a frame whose first
  column is \<open>Filename\<close>. pandas refuses a label that more than one column carries
  (\<open>ValueError: The column label 'Filename' is not unique.\<close>). Rows that agree on the
  file name are rows of the same file, so the order the sort leaves them in is not
  visible.
\<close>

definition not_unique_message :: string where
  "not_unique_message =
     ''The column label '' @ [char_of (39 :: nat)] @ ''Filename'' @ [char_of (39 :: nat)]
       @ '' is not unique.''"

definition sort_values_by_filename :: "dataframe \<Rightarrow> error + dataframe" where
  "sort_values_by_filename df =
     (if 1 < length (filter (\<lambda>c. c = ''Filename'') (columns df))
      then Inl (ValueError not_unique_message)
      else Inr (df\<lparr>rows := sort_key filename_cell (rows df)\<rparr>))"

text \<open>
  The loop over \<open>as_completed(futures)\<close>, lines 45 to 54: \<open>completed\<close> lists the
  positions of the submitted files in the order in which their futures complete, and
  the rows of the files that were read are appended in that order.
\<close>

definition collect_rows :: "string list option list \<Rightarrow> nat list \<Rightarrow> string list list" where
  "collect_rows results completed =
     concat (map (\<lambda>i. if i < length results
                       then (case results ! i of None \<Rightarrow> [] | Some row \<Rightarrow> [row])
                       else []) completed)"

text \<open>
  \<open>dcmtag2table_from_file_list\<close>, lines 24 to 59. \<open>ProcessPoolExecutor\<close> raises
  \<open>ValueError\<close> for a worker count that is not positive.
\<close>

definition dcmtag2table_from_file_list ::
  "(string \<Rightarrow> dataset option) \<Rightarrow> nat list \<Rightarrow> string list \<Rightarrow> string list \<Rightarrow> int
     \<Rightarrow> error + dataframe" where
  "dcmtag2table_from_file_list dcmread completed filelist list_of_tags max_workers =
     (let files = filter (\<lambda>path. path \<noteq> []) filelist;
          cols = ''Filename'' # list_of_tags
      in if files = [] then Inr \<lparr>columns = cols, rows = []\<rparr>
         else if max_workers \<le> 0
         then Inl (ValueError ''max_workers must be greater than 0'')
         else
           (let results = map (\<lambda>f. read_dicom_tags dcmread f list_of_tags) files;
                df = \<lparr>columns = cols, rows = collect_rows results completed\<rparr>
            in if rows df = [] then Inr df else sort_values_by_filename df))"


section \<open>The command line of the extraction (main.py)\<close>




section \<open>Concrete inputs\<close>



section \<open>Auxiliary notions of the proofs\<close>


text \<open>The identifiers an index holds for a tag and a value.\<close>

definition uids_of :: "indexes \<Rightarrow> string \<Rightarrow> string \<Rightarrow> string set" where
  "uids_of idx tag v =
     (case map_of idx tag of
        None \<Rightarrow> {}
      | Some vm \<Rightarrow> (case map_of vm v of None \<Rightarrow> {} | Some s \<Rightarrow> s))"

text \<open>The elements of a list in the order of their first occurrences: the key order of a
  dictionary built by assigning to the elements in turn.\<close>

definition first_occurrences :: "'a list \<Rightarrow> 'a list" where
  "first_occurrences xs = fold (\<lambda>x acc. if x \<in> set acc then acc else acc @ [x]) xs []"

text \<open>A row contributes the identifier \<open>uid\<close> to the value \<open>v\<close> of \<open>tag\<close>: its cell for the tag,
  trimmed, is \<open>v\<close>, its key-column value, trimmed, is \<open>uid\<close>, and neither is a missing token.\<close>

definition contributes ::
  "string \<Rightarrow> string set \<Rightarrow> (string \<rightharpoonup> string) \<Rightarrow> string \<Rightarrow> string \<Rightarrow> string \<Rightarrow> bool" where
  "contributes col missing row tag v uid =
     ((\<exists>raw. row tag = Some raw \<and> strip raw = v) \<and> v \<notin> missing \<and>
      row_study_uid col row = uid \<and> uid \<notin> missing)"

text \<open>Every identifier of the index is contributed by a row of \<open>R\<close>.\<close>

definition sound_for ::
  "string \<Rightarrow> string set \<Rightarrow> (string \<rightharpoonup> string) set \<Rightarrow> indexes \<Rightarrow> bool" where
  "sound_for col missing R idx =
     (\<forall>tag v uid. uid \<in> uids_of idx tag v \<longrightarrow> (\<exists>row\<in>R. contributes col missing row tag v uid))"

text \<open>The name of the file written for a tag, line 118.\<close>

definition output_filename :: "string \<Rightarrow> string" where
  "output_filename tag = sanitize_filename tag @ ''.json''"

text \<open>The document written for a value map, lines 120 to 124.\<close>

definition serialized :: "value_map \<Rightarrow> json_doc" where
  "serialized vm = json_dump_sorted (map (\<lambda>(v, uids). (v, sorted_list_of_set uids)) vm)"

text \<open>Every value map of the index has distinct keys, as a dictionary does.\<close>

definition value_maps_distinct :: "indexes \<Rightarrow> bool" where
  "value_maps_distinct idx = (\<forall>(t, vm) \<in> set idx. distinct (map fst vm))"

section \<open>Properties\<close>

subsection \<open>The attribute list resolver\<close>





subsection \<open>The concrete scenario of the index builder\<close>

text \<open>
  Claim C6: on the table with header \<open>Filename,Modality,StudyInstanceUID\<close> and the rows
  \<open>(a.dcm, CT, S1)\<close>, \<open>(b.dcm, CT, S2)\<close>, \<open>(c.dcm, Not found, S1)\<close>, with the key column
  \<open>StudyInstanceUID\<close>, the attribute \<open>Modality\<close> and the default missing tokens, the
  index of \<open>Modality\<close> maps \<open>CT\<close> to the identifiers \<open>S1\<close> and \<open>S2\<close> and has no other
  value (\<open>Not found\<close> is a default missing token); the file written for it holds
  \<open>{"CT": ["S1", "S2"]}\<close> and the manifest lists \<open>["CT"]\<close> for \<open>Modality.json\<close>.
\<close>

theorem concrete_modality_scenario:
  "build_indexes
     [[''Filename'', ''Modality'', ''StudyInstanceUID''],
      [''a.dcm'', ''CT'', ''S1''], [''b.dcm'', ''CT'', ''S2''],
      [''c.dcm'', ''Not found'', ''S1'']]
     [''Modality''] ''StudyInstanceUID'' MISSING_TOKENS
     = Inr [(''Modality'', [(''CT'', {''S1'', ''S2''})])]
   \<and> ''Not found'' \<in> MISSING_TOKENS
   \<and> write_indexes [(''Modality'', [(''CT'', {''S1'', ''S2''})])] Map.empty ''Modality.json''
       = Some [(''CT'', [''S1'', ''S2''])]
   \<and> write_indexes [(''Modality'', [(''CT'', {''S1'', ''S2''})])] Map.empty ''index.json''
       = Some [(''Modality.json'', [''CT''])]"
  by code_simp

subsection \<open>The extraction engine\<close>






lemma set_collect_rows_subset: "set (collect_rows results completed) \<subseteq> {row. Some row \<in> set results}"
  by (auto simp: collect_rows_def split: if_splits option.splits)



lemma read_dicom_tags_Some_iff:
  "read_dicom_tags dcmread f tags = Some row \<longleftrightarrow>
     (\<exists>ds. dcmread f = Some ds \<and> row = f # map (tag_value ds) tags)"
  by (auto simp: read_dicom_tags_def split: option.splits)

lemma read_dicom_tags_None_iff:
  "read_dicom_tags dcmread f tags = None \<longleftrightarrow> dcmread f = None"
  by (auto simp: read_dicom_tags_def split: option.splits)










lemma engine_rows_subset:
  assumes "dcmtag2table_from_file_list dcmread completed filelist tags w = Inr df"
  shows "columns df = ''Filename'' # tags \<and>
         set (rows df) \<subseteq> {row. \<exists>q. q \<in> set filelist \<and> q \<noteq> [] \<and> read_dicom_tags dcmread q tags = Some row}"
proof -
  let ?files = "filter (\<lambda>p. p \<noteq> []) filelist"
  let ?results = "map (\<lambda>f. read_dicom_tags dcmread f tags) ?files"
  have sub: "set (collect_rows ?results completed) \<subseteq>
      {row. \<exists>q. q \<in> set filelist \<and> q \<noteq> [] \<and> read_dicom_tags dcmread q tags = Some row}"
    using set_collect_rows_subset [of ?results completed] by (fastforce simp: image_iff)
  consider (empty) "df = \<lparr>columns = ''Filename'' # tags, rows = []\<rparr>"
    | (unsorted) "df = \<lparr>columns = ''Filename'' # tags, rows = collect_rows ?results completed\<rparr>"
    | (sorted) "df = \<lparr>columns = ''Filename'' # tags,
                     rows = sort_key filename_cell (collect_rows ?results completed)\<rparr>"
    using assms
    unfolding dcmtag2table_from_file_list_def Let_def sort_values_by_filename_def
    by (auto split: if_splits)
  then show ?thesis
  proof cases
    case empty then show ?thesis by simp
  next
    case unsorted then show ?thesis using sub by simp
  next
    case sorted then show ?thesis using sub by simp
  qed
qed







subsection \<open>The inverted index builder and the index writer\<close>

lemma map_of_dict_set: "map_of (dict_set k v d) = (map_of d)(k \<mapsto> v)"
  by (induction d) (auto simp: fun_eq_iff)

lemma fst_dict_set:
  "map fst (dict_set k v d) = (if k \<in> set (map fst d) then map fst d else map fst d @ [k])"
  by (induction d) (auto simp: rev_image_eqI)

lemma distinct_dict_set: "distinct (map fst d) \<Longrightarrow> distinct (map fst (dict_set k v d))"
  by (simp add: fst_dict_set)

lemma set_dict_set_subset: "set (dict_set k v d) \<subseteq> insert (k, v) (set d)"
  by (induction d) (auto split: if_splits)

lemma fst_fold_init:
  "map fst (fold (\<lambda>tag d. dict_set tag [] d) tags d0) =
     fold (\<lambda>x acc. if x \<in> set acc then acc else acc @ [x]) tags (map fst d0)"
  by (induction tags arbitrary: d0) (simp_all add: fst_dict_set)

lemma fst_init_indexes: "map fst (init_indexes tags) = first_occurrences tags"
  using fst_fold_init [of tags "[]"] by (simp add: init_indexes_def first_occurrences_def)

lemma first_occurrences_fold:
  "distinct acc \<Longrightarrow>
   distinct (fold (\<lambda>x acc. if x \<in> set acc then acc else acc @ [x]) xs acc) \<and>
   set (fold (\<lambda>x acc. if x \<in> set acc then acc else acc @ [x]) xs acc) = set acc \<union> set xs"
  by (induction xs arbitrary: acc) auto

lemma distinct_first_occurrences: "distinct (first_occurrences xs)"
  using first_occurrences_fold [of "[]" xs] by (simp add: first_occurrences_def)

lemma set_first_occurrences: "set (first_occurrences xs) = set xs"
  using first_occurrences_fold [of "[]" xs] by (simp add: first_occurrences_def)

lemma map_of_fold_init:
  "map_of (fold (\<lambda>tag d. dict_set tag [] d) tags d0) t =
     (if t \<in> set tags then Some [] else map_of d0 t)"
  by (induction tags arbitrary: d0) (auto simp: map_of_dict_set)

lemma map_of_init_indexes:
  "map_of (init_indexes tags) t = (if t \<in> set tags then Some [] else None)"
  by (simp add: init_indexes_def map_of_fold_init)

lemma uids_of_init: "uids_of (init_indexes tags) t v = {}"
  by (simp add: uids_of_def map_of_init_indexes)

lemma fst_index_add: "map fst (index_add tag v uid idx) = map fst idx"
proof (cases "map_of idx tag")
  case None then show ?thesis by (simp add: index_add_def)
next
  case (Some vm)
  then have "tag \<in> set (map fst idx)" by (metis map_of_eq_None_iff option.distinct(1) set_map)
  then show ?thesis using Some by (simp add: index_add_def fst_dict_set)
qed

lemma uids_of_index_add:
  "uids_of (index_add tag v uid idx) t' v' =
     (if map_of idx tag \<noteq> None \<and> t' = tag \<and> v' = v
      then insert uid (uids_of idx tag v) else uids_of idx t' v')"
  by (auto simp: uids_of_def index_add_def value_map_add_def map_of_dict_set
           split: option.splits)

lemma fst_process_cell: "map fst (process_cell missing row uid tag idx) = map fst idx"
  by (simp add: process_cell_def Let_def fst_index_add split: option.splits)

lemma fst_fold_process_cell:
  "map fst (fold (process_cell missing row uid) tags idx) = map fst idx"
  by (induction tags arbitrary: idx) (simp_all add: fst_process_cell)

lemma fst_process_row: "map fst (process_row tags col missing row idx) = map fst idx"
  by (simp add: process_row_def Let_def fst_fold_process_cell)

lemma fst_fold_process_row:
  "map fst (fold (process_row tags col missing) rws idx) = map fst idx"
  by (induction rws arbitrary: idx) (simp_all add: fst_process_row)

lemma build_indexes_keys:
  assumes "build_indexes table tags col missing = Inr idx"
  shows "map fst idx = first_occurrences tags"
  using assms
  by (auto simp: build_indexes_def Let_def fst_fold_process_row fst_init_indexes
           split: option.splits if_splits)

lemma sound_process_cell:
  assumes "sound_for col missing R idx" and "row \<in> R"
      and "row_study_uid col row \<notin> missing"
  shows "sound_for col missing R (process_cell missing row (row_study_uid col row) tag idx)"
proof (cases "row tag")
  case None
  then show ?thesis using assms(1) by (simp add: process_cell_def)
next
  case (Some raw)
  show ?thesis
  proof (cases "strip raw \<in> missing")
    case True
    then show ?thesis using assms(1) Some by (simp add: process_cell_def)
  next
    case False
    have c: "contributes col missing row tag (strip raw) (row_study_uid col row)"
      using Some False assms(3) by (simp add: contributes_def)
    have "process_cell missing row (row_study_uid col row) tag idx =
          index_add tag (strip raw) (row_study_uid col row) idx"
      using Some False by (simp add: process_cell_def)
    then have eq: "process_cell missing row (row_study_uid col row) tag idx =
          index_add tag (strip raw) (row_study_uid col row) idx" .
    show ?thesis
      unfolding sound_for_def
    proof (intro allI impI)
      fix t v u
      assume "u \<in> uids_of (process_cell missing row (row_study_uid col row) tag idx) t v"
      then have "u \<in> uids_of idx t v \<or>
          (t = tag \<and> v = strip raw \<and> u = row_study_uid col row)"
        by (auto simp: eq uids_of_index_add split: if_splits)
      then show "\<exists>row\<in>R. contributes col missing row t v u"
        using assms(1,2) c unfolding sound_for_def by blast
    qed
  qed
qed

lemma sound_fold_process_cell:
  assumes "sound_for col missing R idx" and "row \<in> R"
      and "row_study_uid col row \<notin> missing"
  shows "sound_for col missing R
           (fold (process_cell missing row (row_study_uid col row)) tags idx)"
  using assms(1)
proof (induction tags arbitrary: idx)
  case Nil
  then show ?case by simp
next
  case (Cons t ts)
  have "sound_for col missing R (process_cell missing row (row_study_uid col row) t idx)"
    using Cons.prems assms(2,3) by (rule sound_process_cell)
  then show ?case using Cons.IH by simp
qed

lemma sound_process_row:
  assumes "sound_for col missing R idx" and "row \<in> R"
  shows "sound_for col missing R (process_row tags col missing row idx)"
  using assms sound_fold_process_cell [of col missing R idx row tags]
  by (simp add: process_row_def Let_def)

lemma sound_fold_process_row:
  assumes "sound_for col missing R idx" and "set rws \<subseteq> R"
  shows "sound_for col missing R (fold (process_row tags col missing) rws idx)"
  using assms
proof (induction rws arbitrary: idx)
  case Nil
  then show ?case by simp
next
  case (Cons r rs)
  have "sound_for col missing R (process_row tags col missing r idx)"
    using Cons.prems by (intro sound_process_row) auto
  then show ?case using Cons.IH Cons.prems(2) by simp
qed

lemma sound_init: "sound_for col missing R (init_indexes tags)"
  by (simp add: sound_for_def uids_of_init)

lemma build_indexes_Inr:
  assumes "build_indexes table tags col missing = Inr idx"
  shows "idx = fold (process_row tags col missing) (dict_rows table) (init_indexes tags)"
  using assms
  by (auto simp: build_indexes_def Let_def split: option.splits if_splits)

lemma build_indexes_sound:
  assumes "build_indexes table tags col missing = Inr idx"
  shows "sound_for col missing (set (dict_rows table)) idx"
  unfolding build_indexes_Inr [OF assms]
  by (rule sound_fold_process_row [OF sound_init]) simp

lemma process_row_skipped:
  "row_study_uid col row \<in> missing \<Longrightarrow> process_row tags col missing row idx = idx"
  by (simp add: process_row_def)

lemma fold_process_row_filter:
  "fold (process_row tags col missing) (filter (\<lambda>row. row_study_uid col row \<notin> missing) rws) idx
     = fold (process_row tags col missing) rws idx"
  by (induction rws arbitrary: idx) (simp_all add: process_row_skipped)

lemma dict_rows_filter:
  "dict_rows (h # filter (\<lambda>r. P (dict_row h r)) rs) = filter P (dict_rows (h # rs))"
proof -
  have "filter (\<lambda>r. r \<noteq> []) (filter (\<lambda>r. P (dict_row h r)) rs) =
        filter (\<lambda>r. P (dict_row h r)) (filter (\<lambda>r. r \<noteq> []) rs)"
    by (induction rs) auto
  then show ?thesis by (simp add: dict_rows_def filter_map comp_def)
qed

lemma build_indexes_skips_rows:
  "build_indexes (h # filter (\<lambda>r. row_study_uid col (dict_row h r) \<notin> missing) rs) tags col missing
     = build_indexes (h # rs) tags col missing"
proof -
  have "dict_rows (h # filter (\<lambda>r. row_study_uid col (dict_row h r) \<notin> missing) rs) =
        filter (\<lambda>row. row_study_uid col row \<notin> missing) (dict_rows (h # rs))"
    by (rule dict_rows_filter [of h "\<lambda>row. row_study_uid col row \<notin> missing" rs])
  then have F: "fold (process_row tags col missing)
        (dict_rows (h # filter (\<lambda>r. row_study_uid col (dict_row h r) \<notin> missing) rs))
        (init_indexes tags) =
      fold (process_row tags col missing) (dict_rows (h # rs)) (init_indexes tags)"
    by (simp add: fold_process_row_filter)
  have f: "fieldnames (h # xs) = Some h" for xs
    by (simp add: fieldnames_def)
  show ?thesis
    unfolding build_indexes_def Let_def f F by (rule refl)
qed

text \<open>
  Claim C1: for every attribute \<open>A\<close> of an index that \<open>build_indexes\<close> returns (each is a
  requested attribute) and every identifier \<open>uid\<close> in the set stored under a value \<open>V\<close>,
  some row of the table has a cell for \<open>A\<close> that, trimmed, is \<open>V\<close> and is not a missing
  token, and a key-column value (\<open>row.get(study_uid_column) or ""\<close>) that, trimmed, is
  \<open>uid\<close> and is not a missing token. Rows whose trimmed key-column value is a missing token
  contribute nothing: the index is the same with all of them removed from the table.
\<close>

theorem index_soundness:
  assumes "build_indexes table tags col missing = Inr idx"
      and "map_of idx A = Some vm" and "map_of vm V = Some ids" and "uid \<in> ids"
  shows "A \<in> set tags
    \<and> (\<exists>row \<in> set (dict_rows table).
          (\<exists>raw. row A = Some raw \<and> strip raw = V) \<and> V \<notin> missing \<and>
          strip (case row col of None \<Rightarrow> '''' | Some s \<Rightarrow> s) = uid \<and> uid \<notin> missing)
    \<and> (\<forall>h rs. table = h # rs \<longrightarrow>
          build_indexes
            (h # filter (\<lambda>r. strip (case dict_row h r col of None \<Rightarrow> '''' | Some s \<Rightarrow> s)
                               \<notin> missing) rs)
            tags col missing = Inr idx)"
proof -
  have "A \<in> set (map fst idx)"
    using assms(2) by (metis map_of_eq_None_iff option.distinct(1) set_map)
  then have a: "A \<in> set tags"
    using build_indexes_keys [OF assms(1)] by (simp add: set_first_occurrences)
  have "uid \<in> uids_of idx A V"
    using assms(2,3,4) by (simp add: uids_of_def)
  then have b: "\<exists>row \<in> set (dict_rows table). contributes col missing row A V uid"
    using build_indexes_sound [OF assms(1)] unfolding sound_for_def by blast
  have c: "build_indexes
            (h # filter (\<lambda>r. strip (case dict_row h r col of None \<Rightarrow> '''' | Some s \<Rightarrow> s)
                               \<notin> missing) rs)
            tags col missing = Inr idx" if "table = h # rs" for h rs
    using build_indexes_skips_rows [of h col missing rs tags] assms(1) that
    by (simp add: row_study_uid_def)
  show ?thesis using a b c unfolding contributes_def row_study_uid_def by blast
qed

theorem index_soundness_witness:
  "\<exists>row \<in> set (dict_rows
       [[''Filename'', ''Modality'', ''StudyInstanceUID''],
        [''a.dcm'', '' CT '', ''S1 ''], [''b.dcm'', ''CT'', ''null'']]).
     row ''Modality'' = Some '' CT '' \<and> row ''StudyInstanceUID'' = Some ''S1 ''"
proof -
  let ?t = "[[''Filename'', ''Modality'', ''StudyInstanceUID''],
        [''a.dcm'', '' CT '', ''S1 ''], [''b.dcm'', ''CT'', ''null'']]"
  have h1: "build_indexes ?t [''Modality''] ''StudyInstanceUID'' MISSING_TOKENS
      = Inr [(''Modality'', [(''CT'', {''S1''})])]"
    by code_simp
  have h2: "map_of [(''Modality'', [(''CT'', {''S1''})])] ''Modality'' = Some [(''CT'', {''S1''})]"
    by simp
  have h3: "map_of [(''CT'', {''S1''})] ''CT'' = Some {''S1''}" by simp
  have h4: "''S1'' \<in> {''S1''}" by simp
  have s1: "strip '' CT '' = ''CT''" by code_simp
  have s2: "strip ''CT'' = ''CT''" by code_simp
  have rws: "dict_rows ?t = [dict_row [''Filename'', ''Modality'', ''StudyInstanceUID''] [''a.dcm'', '' CT '', ''S1 ''],
      dict_row [''Filename'', ''Modality'', ''StudyInstanceUID''] [''b.dcm'', ''CT'', ''null'']]"
    by (simp add: dict_rows_def)
  from index_soundness [OF h1 h2 h3 h4]
  obtain row where r: "row \<in> set (dict_rows ?t)"
     and "\<exists>raw. row ''Modality'' = Some raw \<and> strip raw = ''CT''"
     and k: "strip (case row ''StudyInstanceUID'' of None \<Rightarrow> '''' | Some s \<Rightarrow> s) = ''S1''"
     and "''S1'' \<notin> MISSING_TOKENS"
    by blast
  have s3: "strip ''null'' \<noteq> ''S1''" by code_simp
  from r k s3 have "row = dict_row [''Filename'', ''Modality'', ''StudyInstanceUID''] [''a.dcm'', '' CT '', ''S1 '']"
    unfolding rws by (auto simp: dict_row_def)
  then have "row ''Modality'' = Some '' CT '' \<and> row ''StudyInstanceUID'' = Some ''S1 ''"
    by (simp add: dict_row_def)
  then show ?thesis using r by blast
qed

lemma join_contains: "x \<in> set xs \<Longrightarrow> \<exists>pre post. join sep xs = pre @ x @ post"
proof (induction sep xs rule: join.induct)
  case (1 sep)
  then show ?case by simp
next
  case (2 sep y)
  then have "join sep [y] = [] @ x @ []" by simp
  then show ?case by blast
next
  case (3 sep y z zs)
  show ?case
  proof (cases "x = y")
    case True
    then have "join sep (y # z # zs) = [] @ x @ (sep @ join sep (z # zs))" by simp
    then show ?thesis by blast
  next
    case False
    then have "x \<in> set (z # zs)" using 3 by simp
    then obtain pre post where "join sep (z # zs) = pre @ x @ post"
      using 3 by blast
    then have "join sep (y # z # zs) = (y @ sep @ pre) @ x @ post" by simp
    then show ?thesis by blast
  qed
qed

text \<open>
  Claim C4: \<open>build_indexes\<close> validates before it processes a row; the errors below do
  not depend on the rows \<open>rs\<close>. It fails when the table has no header (no row, or an empty
  first row); when requested attributes are absent from the header, with one error whose
  message names every one of them; and when the key column is absent. Otherwise the
  validation passes. On such an error \<open>main\<close> prints it, writes no file and returns the
  exit status 1.
\<close>

theorem build_indexes_validation:
  "build_indexes [] tags col missing = Inl (ValueError ''CSV file has no header row.'')
   \<and> build_indexes ([] # rs) tags col missing = Inl (ValueError ''CSV file has no header row.'')
   \<and> (h \<noteq> [] \<and> \<not> set tags \<subseteq> set h \<longrightarrow>
        build_indexes (h # rs) tags col missing =
          Inl (ValueError (''CSV is missing tag columns: ''
                 @ join '', '' (sort (filter (\<lambda>tag. tag \<notin> set h) tags))))
        \<and> (\<forall>tag \<in> set tags. tag \<notin> set h \<longrightarrow>
              (\<exists>pre post. join '', '' (sort (filter (\<lambda>tag. tag \<notin> set h) tags))
                             = pre @ tag @ post)))
   \<and> (h \<noteq> [] \<and> set tags \<subseteq> set h \<and> col \<notin> set h \<longrightarrow>
        build_indexes (h # rs) tags col missing =
          Inl (ValueError (''CSV is missing required column: '' @ col)))
   \<and> (h \<noteq> [] \<and> set tags \<subseteq> set h \<and> col \<in> set h \<longrightarrow>
        (\<exists>idx. build_indexes (h # rs) tags col missing = Inr idx))
   \<and> (tag_lines text_read \<noteq> [] \<and>
       build_indexes table (tag_lines text_read) (study_uid_column args)
         (MISSING_TOKENS \<union> set (map strip (missing_token args))) = Inl e \<longrightarrow>
        main_index (Readable table) (Readable text_read) args dir =
          Inr (1, [''ERROR: '' @ error_message e], dir))"
proof -
  have f: "filter (\<lambda>tag. tag \<notin> set h) tags = [] \<longleftrightarrow> set tags \<subseteq> set h"
    by (auto simp: filter_empty_conv)
  have a: "build_indexes [] tags col missing = Inl (ValueError ''CSV file has no header row.'')"
    by (simp add: build_indexes_def fieldnames_def)
  have b: "build_indexes ([] # rs) tags col missing =
      Inl (ValueError ''CSV file has no header row.'')"
    by (simp add: build_indexes_def fieldnames_def)
  have c: "build_indexes (h # rs) tags col missing =
          Inl (ValueError (''CSV is missing tag columns: ''
                 @ join '', '' (sort (filter (\<lambda>tag. tag \<notin> set h) tags))))"
    if "h \<noteq> []" "\<not> set tags \<subseteq> set h"
    using that f by (simp add: build_indexes_def fieldnames_def Let_def)
  have c': "\<exists>pre post. join '', '' (sort (filter (\<lambda>tag. tag \<notin> set h) tags)) = pre @ tag @ post"
    if "tag \<in> set tags" "tag \<notin> set h" for tag
    by (rule join_contains) (use that in simp)
  have d: "build_indexes (h # rs) tags col missing =
          Inl (ValueError (''CSV is missing required column: '' @ col))"
    if "h \<noteq> []" "set tags \<subseteq> set h" "col \<notin> set h"
    using that f by (simp add: build_indexes_def fieldnames_def Let_def)
  have e: "\<exists>idx. build_indexes (h # rs) tags col missing = Inr idx"
    if "h \<noteq> []" "set tags \<subseteq> set h" "col \<in> set h"
    using that f by (simp add: build_indexes_def fieldnames_def Let_def)
  have g: "main_index (Readable table) (Readable text_read) args dir =
          Inr (1, [''ERROR: '' @ error_message e], dir)"
    if "tag_lines text_read \<noteq> []"
       "build_indexes table (tag_lines text_read) (study_uid_column args)
         (MISSING_TOKENS \<union> set (map strip (missing_token args))) = Inl e"
    using that by (simp add: main_index_def Let_def)
  show ?thesis using a b c c' d e g by blast
qed

theorem build_indexes_validation_witness:
  "build_indexes [[''Filename'', ''Modality''], [''a.dcm'', ''CT'']]
     [''StudyDate'', ''Modality'', ''PatientID''] ''StudyInstanceUID'' MISSING_TOKENS
     = Inl (ValueError ''CSV is missing tag columns: PatientID, StudyDate'')
   \<and> build_indexes [[''Filename'', ''Modality''], [''a.dcm'', ''CT'']]
     [''Modality''] ''StudyInstanceUID'' MISSING_TOKENS
     = Inl (ValueError ''CSV is missing required column: StudyInstanceUID'')
   \<and> main_index (Readable [[''Filename'', ''Modality''], [''a.dcm'', ''CT'']])
       (Readable ''Modality'')
       \<lparr>csv = ''t.csv'', tags_file = ''tags.txt'', study_uid_column = ''StudyInstanceUID'',
        missing_token = []\<rparr> Map.empty
     = Inr (1, [''ERROR: CSV is missing required column: StudyInstanceUID''], Map.empty)"
proof -
  let ?h = "[''Filename'', ''Modality'']"
  let ?a = "\<lparr>csv = ''t.csv'', tags_file = ''tags.txt'', study_uid_column = ''StudyInstanceUID'',
        missing_token = []\<rparr>"
  have j: "join '', '' (sort (filter (\<lambda>tag. tag \<notin> set ?h) [''StudyDate'', ''Modality'', ''PatientID'']))
      = ''PatientID, StudyDate''"
    by code_simp
  have p1: "?h \<noteq> [] \<and> \<not> set [''StudyDate'', ''Modality'', ''PatientID''] \<subseteq> set ?h" by simp
  have p2: "?h \<noteq> [] \<and> set [''Modality''] \<subseteq> set ?h \<and> ''StudyInstanceUID'' \<notin> set ?h" by simp
  have tl: "tag_lines ''Modality'' = [''Modality'']" by code_simp
  have mt: "MISSING_TOKENS \<union> set (map strip (missing_token ?a)) = MISSING_TOKENS" by simp
  have a: "build_indexes [?h, [''a.dcm'', ''CT'']]
     [''StudyDate'', ''Modality'', ''PatientID''] ''StudyInstanceUID'' MISSING_TOKENS
     = Inl (ValueError ''CSV is missing tag columns: PatientID, StudyDate'')"
    using build_indexes_validation
      [where tags = "[''StudyDate'', ''Modality'', ''PatientID'']" and col = "''StudyInstanceUID''"
         and missing = MISSING_TOKENS and rs = "[[''a.dcm'', ''CT'']]" and h = ?h] p1 j
    by simp
  have b: "build_indexes [?h, [''a.dcm'', ''CT'']]
     [''Modality''] ''StudyInstanceUID'' MISSING_TOKENS
     = Inl (ValueError ''CSV is missing required column: StudyInstanceUID'')"
    using build_indexes_validation
      [where tags = "[''Modality'']" and col = "''StudyInstanceUID''"
         and missing = MISSING_TOKENS and rs = "[[''a.dcm'', ''CT'']]" and h = ?h] p2
    by simp
  have c: "main_index (Readable [?h, [''a.dcm'', ''CT'']]) (Readable ''Modality'') ?a Map.empty
     = Inr (1, [''ERROR: CSV is missing required column: StudyInstanceUID''], Map.empty)"
    using build_indexes_validation
      [where text_read = "''Modality''" and args = ?a and table = "[?h, [''a.dcm'', ''CT'']]"
         and e = "ValueError ''CSV is missing required column: StudyInstanceUID''"
         and dir = Map.empty]
      b tl mt
    by simp
  show ?thesis using a b c by simp
qed

text \<open>
  Claim C7, as stated for the index builder, fails: \<open>indexes\<close> is a dictionary keyed by
  the attribute name, so an attribute requested twice has one map, not two.
\<close>

theorem duplicate_tags_share_one_index_counterexample:
  "build_indexes
     [[''Filename'', ''Modality'', ''StudyInstanceUID''], [''a.dcm'', ''CT'', ''S1'']]
     [''Modality'', ''Modality''] ''StudyInstanceUID'' MISSING_TOKENS
     = Inr [(''Modality'', [(''CT'', {''S1''})])]"
  by code_simp

text \<open>
  Claim C7, amended: in the extraction table every occurrence of an attribute name has
  its own column (the header is \<open>Filename\<close> followed by the attribute list as given, and
  every row has one cell for each position of the list); in the index builder the
  occurrences of a name share one map: the index has exactly one map for each distinct
  requested name.
\<close>

theorem duplicate_tags:
  "(dcmtag2table_from_file_list dcmread completed filelist tags w = Inr df \<longrightarrow>
      columns df = ''Filename'' # tags \<and>
      (\<forall>r \<in> set (rows df). length r = Suc (length tags) \<and>
         (\<exists>q dq. dcmread q = Some dq \<and> filename_cell r = q \<and>
            (\<forall>i < length tags. r ! Suc i = tag_value dq (tags ! i)))))
   \<and> (build_indexes table tags col missing = Inr idx \<longrightarrow>
      distinct (map fst idx) \<and> set (map fst idx) = set tags \<and>
      length idx = card (set tags))"
proof -
  have a: "columns df = ''Filename'' # tags \<and>
      (\<forall>r \<in> set (rows df). length r = Suc (length tags) \<and>
         (\<exists>q dq. dcmread q = Some dq \<and> filename_cell r = q \<and>
            (\<forall>i < length tags. r ! Suc i = tag_value dq (tags ! i))))"
    if h: "dcmtag2table_from_file_list dcmread completed filelist tags w = Inr df"
  proof -
    have "\<exists>q dq. dcmread q = Some dq \<and> r = q # map (tag_value dq) tags"
      if "r \<in> set (rows df)" for r
      using engine_rows_subset [OF h] that by (auto simp: read_dicom_tags_Some_iff)
    then show ?thesis
      using engine_rows_subset [OF h] by (fastforce simp: filename_cell_def)
  qed
  have b: "distinct (map fst idx) \<and> set (map fst idx) = set tags \<and>
      length idx = card (set tags)"
    if h: "build_indexes table tags col missing = Inr idx"
  proof -
    have k: "map fst idx = first_occurrences tags" using h by (rule build_indexes_keys)
    have "length idx = length (map fst idx)" by simp
    also have "\<dots> = card (set (first_occurrences tags))"
      unfolding k using distinct_first_occurrences by (metis distinct_card)
    finally show ?thesis
      using k by (simp add: distinct_first_occurrences set_first_occurrences)
  qed
  show ?thesis using a b by blast
qed

lemma write_one_eq:
  "write_one (tag, vm) st =
     ((fst st)(output_filename tag \<mapsto> serialized vm),
      dict_set (output_filename tag) (sort (map fst vm)) (snd st))"
  by (simp add: write_one_def output_filename_def serialized_def Let_def)

lemma fold_write_one_other:
  assumes "\<forall>(t, vm) \<in> set entries. output_filename t \<noteq> f"
  shows "fst (fold write_one entries st) f = fst st f \<and>
         map_of (snd (fold write_one entries st)) f = map_of (snd st) f"
  using assms
proof (induction entries arbitrary: st)
  case Nil
  then show ?case by simp
next
  case (Cons e es)
  obtain t vm where e: "e = (t, vm)" by (cases e)
  have ne: "output_filename t \<noteq> f" using Cons.prems e by simp
  have "fst (fold write_one es (write_one e st)) f = fst (write_one e st) f \<and>
        map_of (snd (fold write_one es (write_one e st))) f = map_of (snd (write_one e st)) f"
    using Cons.IH Cons.prems by simp
  then show ?case using ne by (simp add: e write_one_eq map_of_dict_set)
qed

lemma fold_write_one_last:
  assumes "\<forall>(t, vm) \<in> set post. output_filename t \<noteq> output_filename t2"
  shows "fst (fold write_one (pre @ (t2, vm2) # post) st) (output_filename t2) =
           Some (serialized vm2) \<and>
         map_of (snd (fold write_one (pre @ (t2, vm2) # post) st)) (output_filename t2) =
           Some (sort (map fst vm2))"
  using fold_write_one_other [OF assms, of "write_one (t2, vm2) (fold write_one pre st)"]
  by (simp add: write_one_eq map_of_dict_set)

lemma distinct_fold_write_one:
  "distinct (map fst (snd st)) \<Longrightarrow> distinct (map fst (snd (fold write_one entries st)))"
proof (induction entries arbitrary: st)
  case Nil
  then show ?case by simp
next
  case (Cons e es)
  obtain t vm where e: "e = (t, vm)" by (cases e)
  have "distinct (map fst (snd (write_one e st)))"
    using Cons.prems by (simp add: e write_one_eq distinct_dict_set)
  then show ?case using Cons.IH by simp
qed

lemma manifest_entries:
  assumes "(f, vals) \<in> set (snd (fold write_one entries st))"
  shows "(f, vals) \<in> set (snd st) \<or>
         (\<exists>(t, vm) \<in> set entries. f = output_filename t \<and> vals = sort (map fst vm))"
  using assms
proof (induction entries arbitrary: st)
  case Nil
  then show ?case by simp
next
  case (Cons e es)
  obtain t vm where e: "e = (t, vm)" by (cases e)
  from Cons.IH [of "write_one e st"] Cons.prems
  consider "(f, vals) \<in> set (snd (write_one e st))"
    | "\<exists>(t, vm) \<in> set es. f = output_filename t \<and> vals = sort (map fst vm)"
    by auto
  then show ?case
  proof cases
    case 1
    then have "(f, vals) \<in> insert (output_filename t, sort (map fst vm)) (set (snd st))"
      using set_dict_set_subset [of "output_filename t" "sort (map fst vm)" "snd st"]
      by (auto simp: e write_one_eq)
    then show ?thesis using e by auto
  next
    case 2
    then show ?thesis by auto
  qed
qed

lemma filter_key_distinct:
  "distinct (map fst d) \<Longrightarrow> map_of d k = Some v \<Longrightarrow> filter (\<lambda>(k', v'). k' = k) d = [(k, v)]"
proof (induction d)
  case Nil
  then show ?case by simp
next
  case (Cons e d)
  obtain k' v' where e: "e = (k', v')" by (cases e)
  show ?case
  proof (cases "k' = k")
    case True
    then have "v' = v" using Cons.prems(2) e by simp
    moreover have "filter (\<lambda>(k', v'). k' = k) d = []"
      using Cons.prems(1) True e by (auto simp: filter_empty_conv rev_image_eqI)
    ultimately show ?thesis using True e by simp
  next
    case False
    then show ?thesis using Cons e by simp
  qed
qed

lemma filter_key_dump:
  assumes "distinct (map fst d)" and "map_of d k = Some v"
  shows "filter (\<lambda>(k', v'). k' = k) (json_dump_sorted d) = [(k, v)]"
  unfolding json_dump_sorted_def filter_sort filter_key_distinct [OF assms] by simp

lemma strict_sorted_dump:
  assumes "distinct (map fst d)"
  shows "sorted_wrt (<) (map fst (json_dump_sorted d))"
proof -
  have "mset (map fst (sort_key fst d)) = mset (map fst d)" by simp
  then have "distinct (map fst (sort_key fst d))"
    using assms mset_eq_imp_distinct_iff by blast
  then show ?thesis
    by (simp add: strict_sorted_iff json_dump_sorted_def)
qed

lemma strict_sorted_sort:
  "distinct xs \<Longrightarrow> sorted_wrt (<) (sort xs)"
  by (simp add: strict_sorted_iff)

lemma serialized_sorted:
  assumes "distinct (map fst vm)"
  shows "sorted_wrt (<) (map fst (serialized vm)) \<and>
         (\<forall>(k, xs) \<in> set (serialized vm). sorted_wrt (<) xs)"
proof -
  have "map fst (map (\<lambda>(v, uids). (v, sorted_list_of_set uids)) vm) = map fst vm"
    by (induction vm) auto
  then have a: "sorted_wrt (<) (map fst (serialized vm))"
    unfolding serialized_def using assms strict_sorted_dump by metis
  have b: "\<forall>(k, xs) \<in> set (serialized vm). sorted_wrt (<) xs"
    by (auto simp: serialized_def json_dump_sorted_def strict_sorted_iff)
  show ?thesis using a b by simp
qed

lemma value_maps_distinct_index_add:
  assumes "value_maps_distinct idx"
  shows "value_maps_distinct (index_add tag v uid idx)"
proof (cases "map_of idx tag")
  case None
  then show ?thesis using assms by (simp add: index_add_def)
next
  case (Some vm)
  then have "(tag, vm) \<in> set idx" by (rule map_of_SomeD)
  then have "distinct (map fst vm)" using assms by (auto simp: value_maps_distinct_def)
  then have d: "distinct (map fst (value_map_add v uid vm))"
    by (simp add: value_map_add_def distinct_dict_set)
  have "set (index_add tag v uid idx) \<subseteq> insert (tag, value_map_add v uid vm) (set idx)"
    using Some set_dict_set_subset [of tag "value_map_add v uid vm" idx]
    by (simp add: index_add_def)
  then show ?thesis
    using assms d unfolding value_maps_distinct_def by blast
qed

lemma value_maps_distinct_process_cell:
  "value_maps_distinct idx \<Longrightarrow> value_maps_distinct (process_cell missing row uid tag idx)"
  by (simp add: process_cell_def Let_def value_maps_distinct_index_add split: option.splits)

lemma value_maps_distinct_fold_cell:
  "value_maps_distinct idx \<Longrightarrow>
   value_maps_distinct (fold (process_cell missing row uid) tags idx)"
  by (induction tags arbitrary: idx) (simp_all add: value_maps_distinct_process_cell)

lemma value_maps_distinct_process_row:
  "value_maps_distinct idx \<Longrightarrow> value_maps_distinct (process_row tags col missing row idx)"
  by (simp add: process_row_def Let_def value_maps_distinct_fold_cell)

lemma value_maps_distinct_fold_row:
  "value_maps_distinct idx \<Longrightarrow>
   value_maps_distinct (fold (process_row tags col missing) rws idx)"
  by (induction rws arbitrary: idx) (simp_all add: value_maps_distinct_process_row)

lemma value_maps_distinct_init: "value_maps_distinct (init_indexes tags)"
proof -
  have "vm = []" if "(t, vm) \<in> set (init_indexes tags)" for t vm
  proof -
    have "distinct (map fst (init_indexes tags))"
      by (simp add: fst_init_indexes distinct_first_occurrences)
    then have "map_of (init_indexes tags) t = Some vm"
      using that by simp
    then show ?thesis by (simp add: map_of_init_indexes split: if_splits)
  qed
  then have "distinct (map fst vm)" if "(t, vm) \<in> set (init_indexes tags)" for t vm
    using that by fastforce
  then show ?thesis unfolding value_maps_distinct_def by blast
qed

lemma build_indexes_value_maps_distinct:
  assumes "build_indexes table tags col missing = Inr idx"
  shows "value_maps_distinct idx"
  unfolding build_indexes_Inr [OF assms]
  by (rule value_maps_distinct_fold_row [OF value_maps_distinct_init])

lemma snd_fold_write_one:
  "snd (fold write_one entries (dir, m)) = snd (fold write_one entries (dir', m))"
proof (induction entries arbitrary: dir dir' m)
  case Nil
  then show ?case by simp
next
  case (Cons e es)
  obtain t vm where e: "e = (t, vm)" by (cases e)
  have l: "fold write_one (e # es) (dir, m) =
      fold write_one es (dir(output_filename t \<mapsto> serialized vm),
                         dict_set (output_filename t) (sort (map fst vm)) m)"
    by (simp add: e write_one_eq)
  have r: "fold write_one (e # es) (dir', m) =
      fold write_one es (dir'(output_filename t \<mapsto> serialized vm),
                         dict_set (output_filename t) (sort (map fst vm)) m)"
    by (simp add: e write_one_eq)
  show ?case unfolding l r by (rule Cons.IH)
qed

lemma write_indexes_manifest:
  "write_indexes idx dir ''index.json'' = Some (json_dump_sorted (index_manifest idx))"
  using snd_fold_write_one [of idx dir "[]" Map.empty]
  by (simp add: write_indexes_def index_manifest_def Let_def)

lemma write_indexes_other:
  "f \<noteq> ''index.json'' \<Longrightarrow> write_indexes idx dir f = fst (fold write_one idx (dir, [])) f"
  by (simp add: write_indexes_def Let_def)

lemma distinct_index_manifest: "distinct (map fst (index_manifest idx))"
  unfolding index_manifest_def by (rule distinct_fold_write_one) simp

text \<open>
  Claim C5: every file the index writer writes for an index that \<open>build_indexes\<close>
  returned (the file of each requested attribute and the manifest \<open>index.json\<close>) has its
  keys in strictly ascending order and each of its arrays in strictly ascending order.
  A document is thereby determined by the map it represents, and the written directory
  is a function of the input table: two runs on the same input write the same files.
\<close>

theorem index_files_sorted:
  assumes "build_indexes table tags col missing = Inr idx"
  shows "\<forall>f. f = ''index.json'' \<or> (\<exists>tag \<in> set tags. f = sanitize_filename tag @ ''.json'') \<longrightarrow>
           (\<exists>d. write_indexes idx dir f = Some d \<and> sorted_wrt (<) (map fst d) \<and>
                (\<forall>(k, xs) \<in> set d. sorted_wrt (<) xs))"
proof (intro allI impI)
  fix f
  assume f: "f = ''index.json'' \<or> (\<exists>tag \<in> set tags. f = sanitize_filename tag @ ''.json'')"
  have vd: "value_maps_distinct idx"
    using assms by (rule build_indexes_value_maps_distinct)
  show "\<exists>d. write_indexes idx dir f = Some d \<and> sorted_wrt (<) (map fst d) \<and>
                (\<forall>(k, xs) \<in> set d. sorted_wrt (<) xs)"
  proof (cases "f = ''index.json''")
    case True
    let ?d = "json_dump_sorted (index_manifest idx)"
    have w: "write_indexes idx dir f = Some ?d"
      using True by (simp add: write_indexes_manifest)
    have k: "sorted_wrt (<) (map fst ?d)"
      using distinct_index_manifest by (rule strict_sorted_dump)
    have "sorted_wrt (<) xs" if "(n, xs) \<in> set ?d" for n xs
    proof -
      have "(n, xs) \<in> set (snd (fold write_one idx (Map.empty, [])))"
        using that by (simp add: json_dump_sorted_def index_manifest_def)
      then obtain t vm where "(t, vm) \<in> set idx" and xs: "xs = sort (map fst vm)"
        using manifest_entries [of n xs idx "(Map.empty, [])"] by auto
      then have "distinct (map fst vm)"
        using vd unfolding value_maps_distinct_def by blast
      then show ?thesis unfolding xs by (rule strict_sorted_sort)
    qed
    then have "\<forall>(n, xs) \<in> set ?d. sorted_wrt (<) xs" by blast
    then show ?thesis using w k by blast
  next
    case False
    then obtain tag where tag: "tag \<in> set tags" and ft: "f = output_filename tag"
      using f by (auto simp: output_filename_def)
    have "tag \<in> set (map fst idx)"
      using build_indexes_keys [OF assms] tag by (simp add: set_first_occurrences)
    then have "\<exists>e \<in> set idx. output_filename (fst e) = f"
      using ft by auto
    then obtain pre e post where sp: "idx = pre @ e # post"
        and ef: "output_filename (fst e) = f"
        and last: "\<forall>z \<in> set post. output_filename (fst z) \<noteq> f"
      by (rule split_list_last_propE)
    obtain t2 vm2 where e: "e = (t2, vm2)" by (cases e)
    have last': "\<forall>(t, vm) \<in> set post. output_filename t \<noteq> output_filename t2"
      using last ef e by auto
    have "fst (fold write_one idx (dir, [])) f = Some (serialized vm2)"
      using fold_write_one_last [OF last', of pre vm2 "(dir, [])"] sp e ef by simp
    then have w: "write_indexes idx dir f = Some (serialized vm2)"
      using False by (simp add: write_indexes_other)
    have "(t2, vm2) \<in> set idx" using sp e by simp
    then have "distinct (map fst vm2)"
      using vd unfolding value_maps_distinct_def by blast
    then show ?thesis using w serialized_sorted by blast
  qed
qed

theorem index_files_sorted_witness:
  "\<exists>d. write_indexes [(''Modality'', [(''CT'', {''S2'', ''S1''}), (''MR'', {''S3''})])]
          Map.empty ''Modality.json'' = Some d
       \<and> sorted_wrt (<) (map fst d)"
proof -
  have h: "build_indexes
      [[''Modality'', ''StudyInstanceUID''], [''MR'', ''S3''], [''CT'', ''S2''], [''CT'', ''S1'']]
      [''Modality''] ''StudyInstanceUID'' MISSING_TOKENS
      = Inr [(''Modality'', [(''MR'', {''S3''}), (''CT'', {''S2'', ''S1''})])]"
    by code_simp
  have s: "sanitize_filename ''Modality'' @ ''.json'' = ''Modality.json''"
    by code_simp
  have m: "\<exists>tag \<in> set [''Modality'']. ''Modality.json'' = sanitize_filename tag @ ''.json''"
    using s by simp
  have e: "write_indexes [(''Modality'', [(''MR'', {''S3''}), (''CT'', {''S2'', ''S1''})])]
          Map.empty ''Modality.json''
        = write_indexes [(''Modality'', [(''CT'', {''S2'', ''S1''}), (''MR'', {''S3''})])]
          Map.empty ''Modality.json''"
    by code_simp
  from index_files_sorted [OF h, of Map.empty] m
  have "\<exists>d. write_indexes [(''Modality'', [(''MR'', {''S3''}), (''CT'', {''S2'', ''S1''})])]
          Map.empty ''Modality.json'' = Some d
       \<and> sorted_wrt (<) (map fst d)"
    by blast
  then show ?thesis unfolding e .
qed

text \<open>
  Claim C10: when two distinct attribute names of the index sanitize to the same file
  name, and the second is the last of the index with that file name, both maps are
  written to the same path: after the first is written the file holds its document, and
  after the loop it holds the document of the second. The directory that
  \<open>write_indexes\<close> leaves holds the second document under that name (unless the name is
  \<open>index.json\<close>, which the manifest then overwrites), and the manifest has a single entry
  for the name, with the distinct values of the second attribute.
\<close>

theorem colliding_filenames:
  assumes "t1 \<noteq> t2" and "sanitize_filename t1 = sanitize_filename t2"
      and "idx = pre @ (t1, vm1) # mid @ (t2, vm2) # post"
      and "\<forall>(t, vm) \<in> set post. sanitize_filename t \<noteq> sanitize_filename t2"
  shows "fst (fold write_one (pre @ [(t1, vm1)]) (dir, [])) (sanitize_filename t1 @ ''.json'')
           = Some (json_dump_sorted (map (\<lambda>(v, uids). (v, sorted_list_of_set uids)) vm1))
    \<and> fst (fold write_one idx (dir, [])) (sanitize_filename t1 @ ''.json'')
           = Some (json_dump_sorted (map (\<lambda>(v, uids). (v, sorted_list_of_set uids)) vm2))
    \<and> (sanitize_filename t2 \<noteq> ''index'' \<longrightarrow>
         write_indexes idx dir (sanitize_filename t2 @ ''.json'')
           = Some (json_dump_sorted (map (\<lambda>(v, uids). (v, sorted_list_of_set uids)) vm2)))
    \<and> filter (\<lambda>(k, vals). k = sanitize_filename t2 @ ''.json'') (index_manifest idx)
           = [(sanitize_filename t2 @ ''.json'', sort (map fst vm2))]
    \<and> (\<exists>manifest. write_indexes idx dir ''index.json'' = Some manifest \<and>
          filter (\<lambda>(k, vals). k = sanitize_filename t2 @ ''.json'') manifest
           = [(sanitize_filename t2 @ ''.json'', sort (map fst vm2))])"
proof -
  have same: "output_filename t1 = output_filename t2"
    using assms(2) by (simp add: output_filename_def)
  have last: "\<forall>(t, vm) \<in> set post. output_filename t \<noteq> output_filename t2"
    using assms(4) by (auto simp: output_filename_def)
  have idx: "idx = (pre @ (t1, vm1) # mid) @ (t2, vm2) # post"
    using assms(3) by simp
  have a: "fst (fold write_one (pre @ [(t1, vm1)]) (dir, [])) (output_filename t1)
           = Some (serialized vm1)"
    using fold_write_one_last [of "[]" t1 pre vm1 "(dir, [])"] by simp
  have b: "fst (fold write_one idx st) (output_filename t2) = Some (serialized vm2) \<and>
           map_of (snd (fold write_one idx st)) (output_filename t2) = Some (sort (map fst vm2))"
    for st
    unfolding idx using last by (rule fold_write_one_last)
  have c: "write_indexes idx dir (output_filename t2) = Some (serialized vm2)"
    if "sanitize_filename t2 \<noteq> ''index''"
  proof -
    have "output_filename t2 \<noteq> ''index.json''"
      using that by (simp add: output_filename_def)
    then show ?thesis using b [of "(dir, [])"] by (simp add: write_indexes_other)
  qed
  have m: "map_of (index_manifest idx) (output_filename t2) = Some (sort (map fst vm2))"
    using b [of "(Map.empty, [])"] by (simp add: index_manifest_def)
  have d: "filter (\<lambda>(k, vals). k = output_filename t2) (index_manifest idx)
           = [(output_filename t2, sort (map fst vm2))]"
    using distinct_index_manifest m by (rule filter_key_distinct)
  have e: "filter (\<lambda>(k, vals). k = output_filename t2) (json_dump_sorted (index_manifest idx))
           = [(output_filename t2, sort (map fst vm2))]"
    using distinct_index_manifest m by (rule filter_key_dump)
  show ?thesis
    using a b [of "(dir, [])"] c d e same write_indexes_manifest [of idx dir]
    unfolding output_filename_def serialized_def by simp
qed

theorem colliding_filenames_witness:
  "sanitize_filename ''Patient ID'' = ''Patient_ID''
   \<and> sanitize_filename ''Patient#ID'' = ''Patient_ID''
   \<and> write_indexes [(''Patient ID'', [(''A'', {''S1''})]), (''Patient#ID'', [(''B'', {''S2''})])]
        Map.empty ''Patient_ID.json'' = Some [(''B'', [''S2''])]
   \<and> write_indexes [(''Patient ID'', [(''A'', {''S1''})]), (''Patient#ID'', [(''B'', {''S2''})])]
        Map.empty ''index.json'' = Some [(''Patient_ID.json'', [''B''])]"
proof -
  let ?idx = "[(''Patient ID'', [(''A'', {''S1''})]), (''Patient#ID'', [(''B'', {''S2''})])]"
  have s1: "sanitize_filename ''Patient ID'' = ''Patient_ID''" by code_simp
  have s2: "sanitize_filename ''Patient#ID'' = ''Patient_ID''" by code_simp
  have h1: "''Patient ID'' \<noteq> ''Patient#ID''" by simp
  have h2: "sanitize_filename ''Patient ID'' = sanitize_filename ''Patient#ID''"
    using s1 s2 by simp
  have h3: "?idx = [] @ (''Patient ID'', [(''A'', {''S1''})]) # [] @
                   (''Patient#ID'', [(''B'', {''S2''})]) # []"
    by simp
  have h4: "\<forall>(t, vm) \<in> set []. sanitize_filename t \<noteq> sanitize_filename ''Patient#ID''"
    by simp
  have d: "json_dump_sorted (map (\<lambda>(v, uids). (v, sorted_list_of_set uids)) [(''B'', {''S2''})])
        = [(''B'', [''S2''])]"
    by code_simp
  have m: "write_indexes ?idx Map.empty ''index.json'' = Some [(''Patient_ID.json'', [''B''])]"
    by code_simp
  have ne: "''Patient_ID'' \<noteq> ''index''" by simp
  from colliding_filenames [OF h1 h2 h3 h4, of Map.empty]
  have "write_indexes ?idx Map.empty ''Patient_ID.json'' = Some [(''B'', [''S2''])]"
    unfolding s2 d using ne by simp
  then show ?thesis using s1 s2 m by simp
qed

end
